theory Spec2Isabelle
  imports Main "HOL-Library.Sublist" "HOL-Library.Multiset"
begin

section \<open>Strings and character classes\<close>

text \<open>
  A Python \<open>str\<close> is modelled as a \<open>string\<close>; a \<open>char\<close> stands for the code point
  with the same number, so the model covers the code points 0 to 255. The classes below are
  the ones the \<open>re\<close> module uses for \<open>str\<close> patterns, restricted to that range.
\<close>

definition ord :: "char \<Rightarrow> nat" where
  "ord c = of_char c"

definition in_range :: "char \<Rightarrow> char \<Rightarrow> char \<Rightarrow> bool" where
  "in_range lo hi c = (ord lo \<le> ord c \<and> ord c \<le> ord hi)"

definition is_space :: "char \<Rightarrow> bool" where
  \<comment> \<open>\<open>\s\<close>: the characters for which \<open>str.isspace\<close> holds\<close>
  "is_space c = (let n = ord c in
     (9 \<le> n \<and> n \<le> 13) \<or> (28 \<le> n \<and> n \<le> 32) \<or> n = 133 \<or> n = 160)"

definition is_digit :: "char \<Rightarrow> bool" where
  \<comment> \<open>\<open>\d\<close>: the decimal digits\<close>
  "is_digit c = in_range CHR ''0'' CHR ''9'' c"

definition is_word :: "char \<Rightarrow> bool" where
  \<comment> \<open>\<open>\w\<close>: alphanumeric characters and the underscore\<close>
  "is_word c = (let n = ord c in
     in_range CHR ''a'' CHR ''z'' c \<or> in_range CHR ''A'' CHR ''Z'' c \<or>
     in_range CHR ''0'' CHR ''9'' c \<or> c = CHR ''_'' \<or>
     n = 170 \<or> n = 178 \<or> n = 179 \<or> n = 181 \<or> (185 \<le> n \<and> n \<le> 186) \<or>
     (188 \<le> n \<and> n \<le> 190) \<or> (192 \<le> n \<and> n \<le> 214) \<or>
     (216 \<le> n \<and> n \<le> 246) \<or> (248 \<le> n \<and> n \<le> 255))"

definition lower_char :: "char \<Rightarrow> char" where
  "lower_char c = (let n = ord c in
     if (65 \<le> n \<and> n \<le> 90) \<or> (192 \<le> n \<and> n \<le> 214) \<or> (216 \<le> n \<and> n \<le> 222)
     then char_of (n + 32) else c)"

definition lower :: "string \<Rightarrow> string" where
  \<comment> \<open>\<open>str.lower()\<close>\<close>
  "lower s = map lower_char s"

fun startswith :: "string \<Rightarrow> string \<Rightarrow> bool" where
  \<comment> \<open>\<open>s.startswith(p)\<close>\<close>
  "startswith s [] = True"
| "startswith [] (p # ps) = False"
| "startswith (c # cs) (p # ps) = (c = p \<and> startswith cs ps)"

fun contains :: "string \<Rightarrow> string \<Rightarrow> bool" where
  \<comment> \<open>\<open>p in s\<close>\<close>
  "contains [] p = (p = [])"
| "contains (c # cs) p = (startswith (c # cs) p \<or> contains cs p)"

section \<open>Regular expressions\<close>

text \<open>
  The patterns of the program use literals, character classes, concatenation and the greedy
  quantifiers \<open>?\<close>, \<open>*\<close>, \<open>+\<close> and \<open>{m,n}\<close>. \<open>rmatch r s\<close> lists, in the order in
  which the backtracking matcher of \<open>re\<close> tries them, the rests of \<open>s\<close> that remain after
  a match of \<open>r\<close> at the start of \<open>s\<close>.
\<close>

datatype regex =
    Eps
  | Cls "char \<Rightarrow> bool"
  | Seq regex regex
  | Opt regex
  | Star regex

definition Chr :: "char \<Rightarrow> regex" where
  "Chr c = Cls (\<lambda>x. x = c)"

definition Plus :: "regex \<Rightarrow> regex" where
  "Plus r = Seq r (Star r)"

fun lit :: "string \<Rightarrow> regex" where
  "lit [] = Eps"
| "lit (c # cs) = Seq (Chr c) (lit cs)"

fun seqs :: "regex list \<Rightarrow> regex" where
  "seqs [] = Eps"
| "seqs (r # rs) = Seq r (seqs rs)"

fun rep :: "regex \<Rightarrow> nat \<Rightarrow> nat \<Rightarrow> regex" where
  \<comment> \<open>\<open>r{m,n}\<close>\<close>
  "rep r 0 0 = Eps"
| "rep r 0 (Suc n) = Opt (Seq r (rep r 0 n))"
| "rep r (Suc m) n = Seq r (rep r m (n - 1))"

function rep_star :: "(string \<Rightarrow> string list) \<Rightarrow> string \<Rightarrow> string list" where
  "rep_star f s =
     concat (map (\<lambda>t. if length t < length s then rep_star f t else []) (f s)) @ [s]"
  by pat_completeness auto
termination
  by (relation "measure (\<lambda>(f, s). length s)") auto

declare rep_star.simps [simp del]

fun rmatch :: "regex \<Rightarrow> string \<Rightarrow> string list" where
  "rmatch Eps s = [s]"
| "rmatch (Cls P) s = (case s of [] \<Rightarrow> [] | c # cs \<Rightarrow> if P c then [cs] else [])"
| "rmatch (Seq a b) s = concat (map (rmatch b) (rmatch a s))"
| "rmatch (Opt a) s = rmatch a s @ [s]"
| "rmatch (Star a) s = rep_star (rmatch a) s"

fun re_search :: "regex \<Rightarrow> string \<Rightarrow> bool" where
  \<comment> \<open>\<open>re.search(r, s)\<close> is not \<open>None\<close>\<close>
  "re_search r [] = (rmatch r [] \<noteq> [])"
| "re_search r (c # cs) = (rmatch r (c # cs) \<noteq> [] \<or> re_search r cs)"

section \<open>GTM detection\<close>

definition gtm_patterns :: "regex list" where
  "gtm_patterns =
    [ lit ''googletagmanager.com/gtm.js'',
      Seq (lit ''GTM-'') (Plus (Cls (\<lambda>c. in_range CHR ''A'' CHR ''Z'' c \<or> in_range CHR ''0'' CHR ''9'' c))),
      lit ''https://www.googletagmanager.com/gtm.js?id='',
      seqs [lit ''dataLayer'', Star (Cls is_space), Chr CHR ''='', Star (Cls is_space),
            Chr CHR ''['', Star (Cls is_space), Chr CHR '']''],
      lit ''www.googletagmanager.com/ns.html?id=GTM-'' ]"

fun first_match :: "regex list \<Rightarrow> string \<Rightarrow> bool" where
  \<comment> \<open>the loop of \<open>find_gtm\<close>: return at the first pattern found\<close>
  "first_match [] html_content = False"
| "first_match (pattern # rest) html_content =
     (if re_search pattern html_content then True else first_match rest html_content)"

definition find_gtm :: "string \<Rightarrow> bool" where
  "find_gtm html_content = first_match gtm_patterns html_content"


section \<open>Exceptions, the network and the parser\<close>

text \<open>
  A Python call either returns or raises, so a function whose body can raise returns a value
  of type \<open>exn + 'a\<close>. \<open>SSLError\<close> is the class named by the first handler of
  \<open>check_gtm\<close>; every constructor stands for a subclass of \<open>Exception\<close> and carries
  the text that \<open>str(e)\<close> gives.
\<close>

datatype exn =
    SSLError string
  | HTTPError string
  | ValueError string
  | OtherException string

fun str_exn :: "exn \<Rightarrow> string" where
  "str_exn (SSLError m) = m"
| "str_exn (HTTPError m) = m"
| "str_exn (ValueError m) = m"
| "str_exn (OtherException m) = m"

record request =
  req_url :: string
  req_headers :: "(string \<times> string) list"
  req_timeout :: int
  req_verify :: bool

record response =
  status_code :: int
  reason :: string
  resp_url :: string
  resp_text :: string

record soup =
  get_text :: string
  find_all_a_href :: "string list"

text \<open>
  The world outside the program: what \<open>requests.get\<close> answers to a request, what
  \<open>BeautifulSoup(html, 'html.parser')\<close> makes of a page (its text and the \<open>href\<close> values
  of its anchors that have one, in document order), and for a bracketed host the text of
  the \<open>ValueError\<close> with which \<open>urlparse\<close> refuses it, if it does. Every request ends, with a response or with an
  exception; the program sets a timeout on each.
\<close>

record env =
  requests_get :: "request \<Rightarrow> exn + response"
  html_parser :: "string \<Rightarrow> exn + soup"
  ip_literal_error :: "string \<Rightarrow> string option"

fun digits :: "nat \<Rightarrow> string" where
  "digits n = (if n < 10 then [char_of (48 + n)] else digits (n div 10) @ [char_of (48 + n mod 10)])"

declare digits.simps [simp del]

definition str_int :: "int \<Rightarrow> string" where
  "str_int i = (if i < 0 then CHR ''-'' # digits (nat (- i)) else digits (nat i))"

definition raise_for_status :: "response \<Rightarrow> exn + unit" where
  \<comment> \<open>\<open>Response.raise_for_status\<close> of requests\<close>
  "raise_for_status r =
     (if 400 \<le> status_code r \<and> status_code r < 500
      then Inl (HTTPError (str_int (status_code r) @ '' Client Error: '' @ reason r
                             @ '' for url: '' @ resp_url r))
      else if 500 \<le> status_code r \<and> status_code r < 600
      then Inl (HTTPError (str_int (status_code r) @ '' Server Error: '' @ reason r
                             @ '' for url: '' @ resp_url r))
      else Inr ())"

section \<open>\<open>urlparse(url).netloc\<close>\<close>

definition scheme_char :: "char \<Rightarrow> bool" where
  "scheme_char c = (in_range CHR ''a'' CHR ''z'' c \<or> in_range CHR ''A'' CHR ''Z'' c \<or>
     in_range CHR ''0'' CHR ''9'' c \<or> c = CHR ''+'' \<or> c = CHR ''-'' \<or> c = CHR ''.'')"

definition ascii_alpha :: "char \<Rightarrow> bool" where
  "ascii_alpha c = (in_range CHR ''a'' CHR ''z'' c \<or> in_range CHR ''A'' CHR ''Z'' c)"

definition after_scheme :: "string \<Rightarrow> string" where
  \<comment> \<open>the url without its \<open>scheme:\<close>, when it has one\<close>
  "after_scheme u =
     (let pre = takeWhile (\<lambda>c. c \<noteq> CHR '':'') u in
      if length pre < length u \<and> pre \<noteq> [] \<and> ascii_alpha (hd pre) \<and> list_all scheme_char pre
      then drop (length pre + 1) u else u)"

text \<open>
  \<open>urlsplit\<close> strips leading control characters and spaces, removes tabs and line
  breaks, splits the scheme off, and when the rest begins with \<open>//\<close> takes the network
  location up to the first \<open>/\<close>, \<open>?\<close> or \<open>#\<close>. It raises \<open>ValueError\<close> when the
  brackets of the location do not pair, or pair around something that is no IP literal;
  \<open>ip_err\<close> gives the text of that second error for the locations it is raised on.
\<close>

definition urlparse_netloc :: "(string \<Rightarrow> string option) \<Rightarrow> string \<Rightarrow> exn + string" where
  "urlparse_netloc ip_err u =
     (let u1 = dropWhile (\<lambda>c. ord c \<le> 32) u;
          u2 = filter (\<lambda>c. ord c \<noteq> 9 \<and> ord c \<noteq> 10 \<and> ord c \<noteq> 13) u1;
          u3 = after_scheme u2
      in if take 2 u3 = ''//''
         then (let netloc = takeWhile (\<lambda>c. c \<noteq> CHR ''/'' \<and> c \<noteq> CHR ''?'' \<and> c \<noteq> CHR ''#'') (drop 2 u3);
                   lb = (CHR ''['' \<in> set netloc); rb = (CHR '']'' \<in> set netloc)
               in if (lb \<and> \<not> rb) \<or> (rb \<and> \<not> lb) then Inl (ValueError ''Invalid IPv6 URL'')
                  else if lb \<and> rb
                  then (case ip_err netloc of
                          Some msg \<Rightarrow> Inl (ValueError msg)
                        | None \<Rightarrow> Inr netloc)
                  else Inr netloc)
         else Inr [])"

section \<open>Contact extraction\<close>

function findall :: "regex \<Rightarrow> string \<Rightarrow> string list" where
  \<comment> \<open>\<open>re.findall\<close> for a pattern without groups: the matches from left to right, without overlap\<close>
  "findall r s =
     (case rmatch r s of
        [] \<Rightarrow> (case s of [] \<Rightarrow> [] | c # cs \<Rightarrow> findall r cs)
      | t # ts \<Rightarrow> take (length s - length t) s #
          (if length t < length s then findall r t
           else (case s of [] \<Rightarrow> [] | c # cs \<Rightarrow> findall r cs)))"
  by pat_completeness auto
termination
  by (relation "measure (\<lambda>(r, s). length s)") auto

declare findall.simps [simp del]

definition email_pattern :: regex where
  "email_pattern =
     seqs [Plus (Cls (\<lambda>c. is_word c \<or> c = CHR ''.'' \<or> c = CHR ''-'')), Chr CHR ''@'',
           Plus (Cls (\<lambda>c. is_word c \<or> c = CHR ''.'' \<or> c = CHR ''-'')), Chr CHR ''.'',
           Plus (Cls is_word)]"

definition phone_sep :: "char \<Rightarrow> bool" where
  \<comment> \<open>\<open>[-.\s]\<close>\<close>
  "phone_sep c = (c = CHR ''-'' \<or> c = CHR ''.'' \<or> is_space c)"

definition phone_pattern :: regex where
  "phone_pattern =
     seqs [Opt (seqs [Chr CHR ''+'', rep (Cls is_digit) 1 3, Opt (Cls phone_sep)]),
           Opt (Chr CHR ''(''), rep (Cls is_digit) 3 3, Opt (Chr CHR '')''),
           Opt (Cls phone_sep), rep (Cls is_digit) 3 3,
           Opt (Cls phone_sep), rep (Cls is_digit) 4 4]"

text \<open>
  \<open>list(set(xs))\<close> keeps one copy of each element, in an order the language leaves open:
  the three collections are modelled as sets.
\<close>

record contact_info =
  emails :: "string set"
  phones :: "string set"
  contact_links :: "string set"

fun link_loop :: "(string \<Rightarrow> string option) \<Rightarrow> string \<Rightarrow> string list \<Rightarrow> string list \<Rightarrow> exn + string list" where
  \<comment> \<open>the loop over \<open>soup.find_all('a', href=True)\<close>; the last argument is \<open>contact_links\<close>\<close>
  "link_loop ip_err u [] links = Inr links"
| "link_loop ip_err u (href # rest) links =
     (if contains (lower href) ''contact'' \<or> contains (lower href) ''about''
      then (if startswith href ''/''
            then (case urlparse_netloc ip_err u of
                    Inl e \<Rightarrow> Inl e
                  | Inr netloc \<Rightarrow> link_loop ip_err u rest (links @ [''https://'' @ netloc @ href]))
            else link_loop ip_err u rest (links @ [href]))
      else link_loop ip_err u rest links)"

definition extract_contact_info :: "(string \<Rightarrow> string option) \<Rightarrow> soup \<Rightarrow> string \<Rightarrow> exn + contact_info" where
  "extract_contact_info ip_err sp u =
     (let txt = get_text sp;
          found_emails = set (findall email_pattern txt);
          found_phones = set (findall phone_pattern txt)
      in case link_loop ip_err u (find_all_a_href sp) [] of
           Inl e \<Rightarrow> Inl e
         | Inr links \<Rightarrow>
             Inr \<lparr>emails = found_emails, phones = found_phones, contact_links = set links\<rparr>)"

section \<open>Scanning one URL\<close>

record ScanResult = contact_info +
  url :: string
  gtm_found :: bool
  status :: string
  http_status :: "int option"

definition add_scheme :: "string \<Rightarrow> string" where
  \<comment> \<open>lines 62 to 64 of \<open>check_gtm\<close>\<close>
  "add_scheme u =
     (if \<not> (startswith u ''http://'' \<or> startswith u ''https://'') then ''https://'' @ u else u)"

definition headers :: "(string \<times> string) list" where
  "headers =
     [(''User-Agent'', ''Mozilla/5.0 (Windows NT 10.0; Win64; x64) AppleWebKit/537.36 (KHTML, like Gecko) Chrome/91.0.4472.124 Safari/537.36''),
      (''Accept'', ''text/html,application/xhtml+xml,application/xml;q=0.9,image/webp,*/*;q=0.8''),
      (''Accept-Language'', ''en-US,en;q=0.5''),
      (''Connection'', ''keep-alive'')]"

definition get_request :: "string \<Rightarrow> bool \<Rightarrow> request" where
  \<comment> \<open>the arguments of the two calls of \<open>requests.get\<close>; \<open>verify\<close> is true unless given\<close>
  "get_request u verify =
     \<lparr>req_url = u, req_headers = headers, req_timeout = 15, req_verify = verify\<rparr>"

definition page_info :: "env \<Rightarrow> string \<Rightarrow> response \<Rightarrow> exn + (bool \<times> contact_info)" where
  \<comment> \<open>lines 76 to 83, and again lines 99 to 102\<close>
  "page_info env u resp =
     (let html_content = resp_text resp in
      case html_parser env html_content of
        Inl e \<Rightarrow> Inl e
      | Inr sp \<Rightarrow>
          (let gtm_present = find_gtm html_content in
           case (if gtm_present then extract_contact_info (ip_literal_error env) sp u
                 else Inr \<lparr>emails = {}, phones = {}, contact_links = {}\<rparr>) of
             Inl e \<Rightarrow> Inl e
           | Inr info \<Rightarrow> Inr (gtm_present, info)))"

text \<open>
  \<open>check_gtm\<close> takes the url as a \<open>str\<close>. The first statements of its \<open>try\<close> block,
  the scheme test and the headers, cannot raise; the block is modelled from the first
  request on, with the normalized url \<open>u\<close>.
\<close>

definition try_body :: "env \<Rightarrow> string \<Rightarrow> exn + ScanResult" where
  \<comment> \<open>the outer \<open>try\<close> block from the first request on (lines 73 to 93)\<close>
  "try_body env u =
     (case requests_get env (get_request u True) of
        Inl e \<Rightarrow> Inl e
      | Inr resp \<Rightarrow>
          (case raise_for_status resp of
             Inl e \<Rightarrow> Inl e
           | Inr _ \<Rightarrow>
               (case page_info env u resp of
                  Inl e \<Rightarrow> Inl e
                | Inr (gtm_present, info) \<Rightarrow>
                    Inr \<lparr>emails = emails info, phones = phones info,
                         contact_links = contact_links info,
                         url = u, gtm_found = gtm_present,
                         status = (if gtm_present then ''Success'' else ''No GTM found''),
                         http_status = Some (status_code resp)\<rparr>)))"

definition ssl_retry :: "env \<Rightarrow> string \<Rightarrow> exn + ScanResult" where
  \<comment> \<open>the inner \<open>try\<close> block of the \<open>SSLError\<close> handler (lines 98 to 112)\<close>
  "ssl_retry env u =
     (case requests_get env (get_request u False) of
        Inl e \<Rightarrow> Inl e
      | Inr resp \<Rightarrow>
          (case page_info env u resp of
             Inl e \<Rightarrow> Inl e
           | Inr (gtm_present, info) \<Rightarrow>
               Inr \<lparr>emails = emails info, phones = phones info,
                    contact_links = contact_links info,
                    url = u, gtm_found = gtm_present,
                    status = ''Success (SSL verification disabled)'',
                    http_status = Some (status_code resp)\<rparr>))"

definition failed :: "string \<Rightarrow> string \<Rightarrow> ScanResult" where
  \<comment> \<open>the record both \<open>except Exception\<close> handlers return, with its status text\<close>
  "failed u msg =
     \<lparr>emails = {}, phones = {}, contact_links = {},
      url = u, gtm_found = False, status = msg, http_status = None\<rparr>"

text \<open>
  A run of \<open>check_gtm\<close>: what the call returns or raises, and the requests it has sent,
  in order.
\<close>

record scan_run =
  outcome :: "exn + ScanResult"
  issued :: "request list"

definition check_gtm :: "env \<Rightarrow> string \<Rightarrow> scan_run" where
  "check_gtm env url0 =
     (let u = add_scheme url0 in
      case try_body env u of
        Inr result \<Rightarrow> \<lparr>outcome = Inr result, issued = [get_request u True]\<rparr>
      | Inl (SSLError m) \<Rightarrow>
          (case ssl_retry env u of
             Inr result \<Rightarrow>
               \<lparr>outcome = Inr result, issued = [get_request u True, get_request u False]\<rparr>
           | Inl e \<Rightarrow>
               \<lparr>outcome = Inr (failed u (''SSL Error: '' @ str_exn e)),
                issued = [get_request u True, get_request u False]\<rparr>)
      | Inl e \<Rightarrow>
          \<lparr>outcome = Inr (failed u (''Error: '' @ str_exn e)), issued = [get_request u True]\<rparr>)"

section \<open>The batch\<close>

text \<open>
  The scanning block of \<open>main\<close> (lines 180 to 196). Task \<open>i\<close> runs \<open>check_gtm\<close> on the
  \<open>i\<close>-th url in the world \<open>envs i\<close> it meets; \<open>order\<close> is the order in which
  \<open>as_completed\<close> hands the futures over. \<open>max_workers\<close> sizes the pool; \<open>timeout\<close> is
  the value of the timeout slider.
\<close>

definition submit_all :: "(nat \<Rightarrow> env) \<Rightarrow> string list \<Rightarrow> scan_run list" where
  \<comment> \<open>\<open>{executor.submit(check_gtm, url): url for url in urls_to_scan}\<close>: one future per list entry\<close>
  "submit_all envs urls_to_scan = map (\<lambda>(i, u). check_gtm (envs i) u) (enumerate 0 urls_to_scan)"

fun as_completed_loop ::
  "scan_run list \<Rightarrow> nat list \<Rightarrow> nat \<times> ScanResult list \<Rightarrow> exn + (nat \<times> ScanResult list)" where
  \<comment> \<open>the state is \<open>(completed, results)\<close>; \<open>future.result()\<close> raises what the task raised\<close>
  "as_completed_loop futures [] st = Inr st"
| "as_completed_loop futures (i # rest) (completed, results) =
     (case outcome (futures ! i) of
        Inl e \<Rightarrow> Inl e
      | Inr result \<Rightarrow> as_completed_loop futures rest (completed + 1, results @ [result]))"

definition main_scan ::
  "(nat \<Rightarrow> env) \<Rightarrow> int \<Rightarrow> int \<Rightarrow> string list \<Rightarrow> nat list \<Rightarrow> exn + (nat \<times> ScanResult list)" where
  "main_scan envs max_workers timeout urls_to_scan order =
     as_completed_loop (submit_all envs urls_to_scan) order (0, [])"

definition main_requests :: "(nat \<Rightarrow> env) \<Rightarrow> int \<Rightarrow> int \<Rightarrow> string list \<Rightarrow> request list" where
  \<comment> \<open>the requests sent by the tasks of the batch, task by task\<close>
  "main_requests envs max_workers timeout urls_to_scan =
     concat (map issued (submit_all envs urls_to_scan))"

section \<open>Reference notions for the properties\<close>

text \<open>
  The language of a pattern, as a set of strings: the specification the matcher is checked
  against.
\<close>

inductive_set star :: "string set \<Rightarrow> string set" for L :: "string set" where
  star_nil: "[] \<in> star L"
| star_step: "u \<in> L \<Longrightarrow> v \<in> star L \<Longrightarrow> u @ v \<in> star L"

fun lang :: "regex \<Rightarrow> string set" where
  "lang Eps = {[]}"
| "lang (Cls P) = {[c] | c. P c}"
| "lang (Seq a b) = {u @ v | u v. u \<in> lang a \<and> v \<in> lang b}"
| "lang (Opt a) = insert [] (lang a)"
| "lang (Star a) = star (lang a)"

definition has_url_scheme :: "string \<Rightarrow> bool" where
  \<comment> \<open>the url starts with a scheme name (a letter, then letters, digits, \<open>+\<close>, \<open>-\<close>, \<open>.\<close>) and \<open>://\<close>\<close>
  "has_url_scheme u =
     (let pre = takeWhile (\<lambda>c. c \<noteq> CHR '':'') u in
      pre \<noteq> [] \<and> ascii_alpha (hd pre) \<and> list_all scheme_char pre \<and>
      startswith (drop (length pre) u) ''://'')"

text \<open>
  A small world for the examples: one answer to the verified request, one to the request
  without verification, and the parse of every page.
\<close>

definition world :: "(exn + response) \<Rightarrow> (exn + response) \<Rightarrow> soup \<Rightarrow> env" where
  "world first second sp =
     \<lparr>requests_get = (\<lambda>rq. if req_verify rq then first else second),
      html_parser = (\<lambda>_. Inr sp), ip_literal_error = (\<lambda>_. None)\<rparr>"

definition page :: "int \<Rightarrow> string \<Rightarrow> string \<Rightarrow> response" where
  "page code why html =
     \<lparr>status_code = code, reason = why, resp_url = ''https://example.com/'', resp_text = html\<rparr>"

section \<open>The matcher computes the language of a pattern\<close>

lemma rep_star_sound:
  "(\<And>s t. t \<in> set (f s) \<Longrightarrow> \<exists>w\<in>L. s = w @ t) \<Longrightarrow>
   t \<in> set (rep_star f s) \<Longrightarrow> \<exists>w\<in>star L. s = w @ t"
proof (induction f s arbitrary: t rule: rep_star.induct)
  case (1 f s)
  from "1.prems"(2) have "t = s \<or> (\<exists>u\<in>set (f s). length u < length s \<and> t \<in> set (rep_star f u))"
    by (subst (asm) rep_star.simps) (auto split: if_splits)
  then show ?case
  proof
    assume "t = s"
    then show ?thesis using star_nil by fastforce
  next
    assume "\<exists>u\<in>set (f s). length u < length s \<and> t \<in> set (rep_star f u)"
    then obtain u where u: "u \<in> set (f s)" "length u < length s" "t \<in> set (rep_star f u)"
      by blast
    from "1.IH" [OF u(1) u(2) "1.prems"(1) u(3)] obtain w2 where w2: "w2 \<in> star L" "u = w2 @ t" by blast
    from "1.prems"(1) [OF u(1)] obtain w1 where w1: "w1 \<in> L" "s = w1 @ u" by blast
    have "w1 @ w2 \<in> star L" using w1(1) w2(1) by (rule star_step)
    moreover have "s = (w1 @ w2) @ t" using w1(2) w2(2) by simp
    ultimately show ?thesis by blast
  qed
qed

lemma rep_star_self: "s \<in> set (rep_star f s)"
  by (subst rep_star.simps) simp

lemma rep_star_step:
  "u \<in> set (f s) \<Longrightarrow> length u < length s \<Longrightarrow> t \<in> set (rep_star f u) \<Longrightarrow> t \<in> set (rep_star f s)"
  by (subst rep_star.simps) auto

lemma rep_star_complete:
  assumes f: "\<And>s w t. w \<in> L \<Longrightarrow> s = w @ t \<Longrightarrow> t \<in> set (f s)"
  shows "w \<in> star L \<Longrightarrow> t \<in> set (rep_star f (w @ t))"
proof (induction w rule: star.induct)
  case star_nil
  show ?case by (simp add: rep_star_self)
next
  case (star_step u v)
  show ?case
  proof (cases "u = []")
    case True
    then show ?thesis using star_step.IH by simp
  next
    case False
    have "v @ t \<in> set (f ((u @ v) @ t))" using f [OF star_step.hyps(1)] by simp
    moreover have "length (v @ t) < length ((u @ v) @ t)" using False by simp
    ultimately show ?thesis using star_step.IH by (rule rep_star_step)
  qed
qed

lemma rmatch_sem: "t \<in> set (rmatch r s) \<longleftrightarrow> (\<exists>w\<in>lang r. s = w @ t)"
proof (induction r arbitrary: s t)
  case Eps
  show ?case by auto
next
  case (Cls P)
  show ?case by (cases s) auto
next
  case (Seq a b)
  show ?case
  proof
    assume "t \<in> set (rmatch (Seq a b) s)"
    then obtain u where u: "u \<in> set (rmatch a s)" "t \<in> set (rmatch b u)" by auto
    from u(1) Seq.IH(1) obtain w1 where w1: "w1 \<in> lang a" "s = w1 @ u" by blast
    from u(2) Seq.IH(2) obtain w2 where w2: "w2 \<in> lang b" "u = w2 @ t" by blast
    have "w1 @ w2 \<in> lang (Seq a b)" using w1(1) w2(1) by auto
    moreover have "s = (w1 @ w2) @ t" using w1(2) w2(2) by simp
    ultimately show "\<exists>w\<in>lang (Seq a b). s = w @ t" by blast
  next
    assume "\<exists>w\<in>lang (Seq a b). s = w @ t"
    then obtain w1 w2 where w: "w1 \<in> lang a" "w2 \<in> lang b" "s = (w1 @ w2) @ t" by auto
    have "w2 @ t \<in> set (rmatch a s)" using Seq.IH(1) w(1) w(3) by auto
    moreover have "t \<in> set (rmatch b (w2 @ t))" using Seq.IH(2) w(2) by blast
    ultimately show "t \<in> set (rmatch (Seq a b) s)" by auto
  qed
next
  case (Opt a)
  show ?case using Opt.IH by auto
next
  case (Star a)
  show ?case
  proof
    assume "t \<in> set (rmatch (Star a) s)"
    then have "t \<in> set (rep_star (rmatch a) s)" by simp
    then have "\<exists>w\<in>star (lang a). s = w @ t"
      using Star.IH by (intro rep_star_sound [where f = "rmatch a"]) blast+
    then show "\<exists>w\<in>lang (Star a). s = w @ t" by simp
  next
    assume "\<exists>w\<in>lang (Star a). s = w @ t"
    then obtain w where w: "w \<in> star (lang a)" "s = w @ t" by auto
    have "t \<in> set (rep_star (rmatch a) (w @ t))"
      by (rule rep_star_complete [OF _ w(1)]) (use Star.IH in blast)
    then show "t \<in> set (rmatch (Star a) s)" using w(2) by simp
  qed
qed

lemma rmatch_nonempty: "rmatch r s \<noteq> [] \<longleftrightarrow> (\<exists>w\<in>lang r. prefix w s)"
proof -
  have "rmatch r s \<noteq> [] \<longleftrightarrow> (\<exists>t. t \<in> set (rmatch r s))"
    by (cases "rmatch r s") auto
  then show ?thesis by (auto simp: rmatch_sem prefix_def)
qed

lemma re_search_sem: "re_search r s \<longleftrightarrow> (\<exists>w\<in>lang r. sublist w s)"
proof (induction s)
  case Nil
  show ?case by (auto simp: rmatch_nonempty)
next
  case (Cons c cs)
  show ?case by (auto simp: rmatch_nonempty Cons.IH sublist_Cons_right)
qed

lemma lang_lit: "lang (lit w) = {w}"
  by (induction w) (auto simp: Chr_def)

lemma star_cls: "star (lang (Cls P)) = {w. list_all P w}"
proof (intro set_eqI iffI)
  fix w assume "w \<in> star (lang (Cls P))"
  then show "w \<in> {w. list_all P w}" by (induction rule: star.induct) auto
next
  fix w assume "w \<in> {w. list_all P w}"
  then show "w \<in> star (lang (Cls P))"
  proof (induction w)
    case Nil
    show ?case by (rule star_nil)
  next
    case (Cons c cs)
    have "[c] @ cs \<in> star (lang (Cls P))"
      by (rule star_step) (use Cons in auto)
    then show ?case by simp
  qed
qed

lemma first_match_iff: "first_match ps c \<longleftrightarrow> (\<exists>p\<in>set ps. re_search p c)"
  by (induction ps) auto

lemma sublist_app_left: "sublist (a @ b) c \<Longrightarrow> sublist a c"
  by (metis append.assoc sublist_def)

lemma search_lit: "re_search (lit w) c \<longleftrightarrow> sublist w c"
  by (simp add: re_search_sem lang_lit)

lemma lang_Chr: "lang (Chr c) = {[c]}"
  by (auto simp: Chr_def)

lemma lang_Plus_Cls: "lang (Plus (Cls P)) = {x # v | x v. P x \<and> list_all P v}"
proof -
  have "\<And>x v. x # v = [x] @ v" by simp
  then show ?thesis
    unfolding Plus_def lang.simps(3) lang.simps(5) star_cls
    by (auto simp: Cons_eq_append_conv) blast
qed

lemma search_container:
  "re_search (Seq (lit w) (Plus (Cls P))) c \<longleftrightarrow> (\<exists>x. P x \<and> sublist (w @ [x]) c)"
proof
  assume "re_search (Seq (lit w) (Plus (Cls P))) c"
  then obtain z where z: "z \<in> lang (Seq (lit w) (Plus (Cls P)))" "sublist z c"
    unfolding re_search_sem by blast
  from z(1) obtain x v where "P x" "z = (w @ [x]) @ v"
    unfolding lang.simps(3) lang_lit lang_Plus_Cls by auto
  then show "\<exists>x. P x \<and> sublist (w @ [x]) c"
    using z(2) sublist_app_left by blast
next
  assume "\<exists>x. P x \<and> sublist (w @ [x]) c"
  then obtain x where x: "P x" "sublist (w @ [x]) c" by blast
  have "w @ [x] \<in> lang (Seq (lit w) (Plus (Cls P)))"
    unfolding lang.simps(3) lang_lit lang_Plus_Cls using x(1) by auto
  then show "re_search (Seq (lit w) (Plus (Cls P))) c"
    using x(2) re_search_sem by blast
qed

lemma lang_Seq_lit: "lang (Seq (lit w) r) = {w @ v | v. v \<in> lang r}"
  unfolding lang.simps(3) lang_lit by auto

lemma lang_Seq_Chr: "lang (Seq (Chr c) r) = {c # v | v. v \<in> lang r}"
  unfolding lang.simps(3) lang_Chr by auto

lemma lang_Seq_Star_Cls: "lang (Seq (Star (Cls P)) r) = {a @ v | a v. list_all P a \<and> v \<in> lang r}"
  unfolding lang.simps(3) lang.simps(5) star_cls by auto

lemma lang_init:
  "z \<in> lang (seqs [lit w, Star (Cls P), Chr e, Star (Cls P), Chr l, Star (Cls P), Chr r]) \<longleftrightarrow>
   (\<exists>a b d. list_all P a \<and> list_all P b \<and> list_all P d \<and> z = w @ a @ [e] @ b @ [l] @ d @ [r])"
  unfolding seqs.simps lang_Seq_lit lang_Seq_Chr lang_Seq_Star_Cls lang.simps(1)
  by (simp only: mem_Collect_eq singleton_iff) (auto; metis)

lemma search_init:
  "re_search (seqs [lit w, Star (Cls P), Chr e, Star (Cls P), Chr l, Star (Cls P), Chr r]) c \<longleftrightarrow>
   (\<exists>a b d. list_all P a \<and> list_all P b \<and> list_all P d \<and> sublist (w @ a @ [e] @ b @ [l] @ d @ [r]) c)"
  unfolding re_search_sem Bex_def lang_init by blast


section \<open>GTM detection: properties\<close>

lemma gtm_js_in_loader:
  "sublist ''googletagmanager.com/gtm.js'' ''https://www.googletagmanager.com/gtm.js?id=''"
  unfolding sublist_def by (intro exI [of _ "''https://www.''"] exI [of _ "''?id=''"]) simp

lemma loader_subsumed:
  "sublist ''https://www.googletagmanager.com/gtm.js?id='' c \<Longrightarrow>
   sublist ''googletagmanager.com/gtm.js'' c"
  using gtm_js_in_loader sublist_order.order_trans by blast

text \<open>
  C4. \<open>find_gtm\<close> is true exactly when one of its five patterns is found in the content,
  that is, exactly when the content contains the loader script URL
  \<open>googletagmanager.com/gtm.js\<close>, or \<open>GTM-\<close> followed by a capital letter or a digit, or
  \<open>dataLayer = []\<close> with any white space around \<open>=\<close> and inside the brackets, or the
  noscript iframe URL \<open>www.googletagmanager.com/ns.html?id=GTM-\<close>; on the empty content it
  is false.
\<close>

theorem find_gtm_iff_signature:
  "(find_gtm c \<longleftrightarrow> (\<exists>p\<in>set gtm_patterns. re_search p c)) \<and>
   (find_gtm c \<longleftrightarrow>
      sublist ''googletagmanager.com/gtm.js'' c \<or>
      (\<exists>x. (in_range CHR ''A'' CHR ''Z'' x \<or> in_range CHR ''0'' CHR ''9'' x) \<and>
           sublist (''GTM-'' @ [x]) c) \<or>
      (\<exists>a b d. list_all is_space a \<and> list_all is_space b \<and> list_all is_space d \<and>
           sublist (''dataLayer'' @ a @ ''='' @ b @ ''['' @ d @ '']'') c) \<or>
      sublist ''www.googletagmanager.com/ns.html?id=GTM-'' c) \<and>
   \<not> find_gtm []"
proof (intro conjI)
  show "find_gtm c \<longleftrightarrow> (\<exists>p\<in>set gtm_patterns. re_search p c)"
    unfolding find_gtm_def by (rule first_match_iff)
  show "find_gtm c \<longleftrightarrow>
      sublist ''googletagmanager.com/gtm.js'' c \<or>
      (\<exists>x. (in_range CHR ''A'' CHR ''Z'' x \<or> in_range CHR ''0'' CHR ''9'' x) \<and>
           sublist (''GTM-'' @ [x]) c) \<or>
      (\<exists>a b d. list_all is_space a \<and> list_all is_space b \<and> list_all is_space d \<and>
           sublist (''dataLayer'' @ a @ ''='' @ b @ ''['' @ d @ '']'') c) \<or>
      sublist ''www.googletagmanager.com/ns.html?id=GTM-'' c"
    unfolding find_gtm_def gtm_patterns_def first_match_iff list.set bex_simps
      Set.ball_simps insert_iff empty_iff
    using loader_subsumed [of c]
    by (auto simp only: search_lit search_container search_init append.simps)
  show "\<not> find_gtm []"
    by code_simp
qed

theorem find_gtm_iff_signature_witness:
  "find_gtm ''<b>GTM-K</b>'' \<and> \<not> find_gtm ''<b>gtm-k</b>''"
proof -
  have "sublist (''GTM-'' @ [CHR ''K'']) ''<b>GTM-K</b>''"
    unfolding sublist_def by (intro exI [of _ "''<b>''"] exI [of _ "''</b>''"]) simp
  moreover have "in_range CHR ''A'' CHR ''Z'' CHR ''K''"
    by (simp add: in_range_def ord_def)
  ultimately have "find_gtm ''<b>GTM-K</b>''"
    using find_gtm_iff_signature [of "''<b>GTM-K</b>''"] by blast
  moreover have "\<not> (\<exists>p\<in>set gtm_patterns. re_search p ''<b>gtm-k</b>'')"
    by code_simp
  then have "\<not> find_gtm ''<b>gtm-k</b>''"
    using find_gtm_iff_signature [of "''<b>gtm-k</b>''"] by blast
  ultimately show ?thesis by blast
qed

section \<open>Scanning one URL: properties\<close>

lemma check_gtm_cases:
  "outcome (check_gtm env u0) =
     (case try_body env (add_scheme u0) of
        Inr r \<Rightarrow> Inr r
      | Inl e \<Rightarrow>
         (case e of
            SSLError m \<Rightarrow>
              (case ssl_retry env (add_scheme u0) of
                 Inr r \<Rightarrow> Inr r
               | Inl e' \<Rightarrow> Inr (failed (add_scheme u0) (''SSL Error: '' @ str_exn e')))
          | _ \<Rightarrow> Inr (failed (add_scheme u0) (''Error: '' @ str_exn e))))"
  by (simp add: check_gtm_def Let_def split: sum.splits exn.splits)

text \<open>
  C1. \<open>check_gtm\<close> never raises: every call returns one result record. When the outer
  \<open>try\<close> block raises anything but an \<open>SSLError\<close>, the record has no GTM, empty
  collections, no HTTP status and the status text \<open>Error:\<close> followed by the description of
  the error; when it raises an \<open>SSLError\<close> and the retry raises too, the same with
  \<open>SSL Error:\<close> and the description of the retry's error.
\<close>

theorem check_gtm_never_raises:
  "\<exists>r. outcome (check_gtm env u0) = Inr r \<and>
     (\<forall>e. try_body env (add_scheme u0) = Inl e \<and> (\<forall>m. e \<noteq> SSLError m) \<longrightarrow>
        r = \<lparr>emails = {}, phones = {}, contact_links = {}, url = add_scheme u0,
             gtm_found = False, status = ''Error: '' @ str_exn e, http_status = None\<rparr>) \<and>
     (\<forall>m e. try_body env (add_scheme u0) = Inl (SSLError m) \<and>
            ssl_retry env (add_scheme u0) = Inl e \<longrightarrow>
        r = \<lparr>emails = {}, phones = {}, contact_links = {}, url = add_scheme u0,
             gtm_found = False, status = ''SSL Error: '' @ str_exn e, http_status = None\<rparr>)"
proof (cases "try_body env (add_scheme u0)")
  case (Inr r)
  then show ?thesis by (simp add: check_gtm_cases)
next
  case (Inl e)
  show ?thesis
  proof (cases "\<exists>m. e = SSLError m")
    case False
    then show ?thesis using Inl
      by (cases e) (simp_all add: check_gtm_cases failed_def)
  next
    case True
    then obtain m where m: "e = SSLError m" by blast
    show ?thesis
    proof (cases "ssl_retry env (add_scheme u0)")
      case (Inr r)
      then show ?thesis using Inl m by (simp add: check_gtm_cases)
    next
      case (Inl e')
      then show ?thesis using \<open>try_body env (add_scheme u0) = Inl e\<close> m
        by (simp add: check_gtm_cases failed_def)
    qed
  qed
qed

theorem check_gtm_never_raises_witness:
  "outcome (check_gtm (world (Inl (OtherException ''timed out'')) (Inl (OtherException ''timed out''))
        \<lparr>get_text = '''', find_all_a_href = []\<rparr>) ''example.com'') =
     Inr \<lparr>emails = {}, phones = {}, contact_links = {}, url = ''https://example.com'',
          gtm_found = False, status = ''Error: timed out'', http_status = None\<rparr> \<and>
   outcome (check_gtm (world (Inl (SSLError ''certificate verify failed'')) (Inl (OtherException ''connection refused''))
        \<lparr>get_text = '''', find_all_a_href = []\<rparr>) ''example.com'') =
     Inr \<lparr>emails = {}, phones = {}, contact_links = {}, url = ''https://example.com'',
          gtm_found = False, status = ''SSL Error: connection refused'', http_status = None\<rparr>"
proof -
  let ?w1 = "world (Inl (OtherException ''timed out'')) (Inl (OtherException ''timed out''))
        \<lparr>get_text = '''', find_all_a_href = []\<rparr>"
  let ?w2 = "world (Inl (SSLError ''certificate verify failed'')) (Inl (OtherException ''connection refused''))
        \<lparr>get_text = '''', find_all_a_href = []\<rparr>"
  have u: "add_scheme ''example.com'' = ''https://example.com''"
    by (simp add: add_scheme_def)
  have a: "try_body ?w1 ''https://example.com'' = Inl (OtherException ''timed out'')"
    by (simp add: try_body_def world_def get_request_def)
  have b: "try_body ?w2 ''https://example.com'' = Inl (SSLError ''certificate verify failed'')"
    by (simp add: try_body_def world_def get_request_def)
  have c: "ssl_retry ?w2 ''https://example.com'' = Inl (OtherException ''connection refused'')"
    by (simp add: ssl_retry_def world_def get_request_def)
  from check_gtm_never_raises [of ?w1 "''example.com''"] a
  have "outcome (check_gtm ?w1 ''example.com'') =
     Inr \<lparr>emails = {}, phones = {}, contact_links = {}, url = ''https://example.com'',
          gtm_found = False, status = ''Error: timed out'', http_status = None\<rparr>"
    unfolding u by auto
  moreover from check_gtm_never_raises [of ?w2 "''example.com''"] b c
  have "outcome (check_gtm ?w2 ''example.com'') =
     Inr \<lparr>emails = {}, phones = {}, contact_links = {}, url = ''https://example.com'',
          gtm_found = False, status = ''SSL Error: connection refused'', http_status = None\<rparr>"
    unfolding u by auto
  ultimately show ?thesis by blast
qed

text \<open>
  C2. Only the verified request is followed by \<open>raise_for_status\<close>; the retry without
  verification is not. When the first request fails on the certificate and the retry is
  answered with status 404, the result says \<open>Success (SSL verification disabled)\<close> with
  \<open>http_status\<close> 404, whereas the same answer to the verified request gives an error
  result.
\<close>

theorem retry_accepts_error_status:
  "outcome (check_gtm (world (Inl (SSLError ''certificate verify failed''))
                             (Inr (page 404 ''Not Found'' ''<h1>Not Found</h1>''))
                             \<lparr>get_text = ''Not Found'', find_all_a_href = []\<rparr>) ''example.com'') =
     Inr \<lparr>emails = {}, phones = {}, contact_links = {}, url = ''https://example.com'',
          gtm_found = False, status = ''Success (SSL verification disabled)'',
          http_status = Some 404\<rparr> \<and>
   outcome (check_gtm (world (Inr (page 404 ''Not Found'' ''<h1>Not Found</h1>''))
                             (Inr (page 404 ''Not Found'' ''<h1>Not Found</h1>''))
                             \<lparr>get_text = ''Not Found'', find_all_a_href = []\<rparr>) ''example.com'') =
     Inr \<lparr>emails = {}, phones = {}, contact_links = {}, url = ''https://example.com'',
          gtm_found = False,
          status = ''Error: 404 Client Error: Not Found for url: https://example.com/'',
          http_status = None\<rparr>"
  by code_simp

section \<open>The batch: properties\<close>

lemma issued_timeout: "rq \<in> set (issued (check_gtm env u0)) \<Longrightarrow> req_timeout rq = 15"
  by (auto simp: check_gtm_def Let_def get_request_def split: sum.splits exn.splits)

text \<open>
  C7. Every request of a batch is sent with the timeout 15, whatever the value of the
  timeout slider: \<open>main\<close> reads the slider and does not pass it on. With the slider at 30
  the request for \<open>example.com\<close> goes out with timeout 15.
\<close>

theorem timeout_setting_not_used:
  "req_timeout ` set (main_requests envs max_workers timeout urls_to_scan) \<subseteq> {15} \<and>
   map req_timeout (main_requests
      (\<lambda>i. world (Inr (page 200 ''OK'' ''<p>hello</p>'')) (Inr (page 200 ''OK'' ''<p>hello</p>''))
              \<lparr>get_text = ''hello'', find_all_a_href = []\<rparr>) 3 30 [''example.com'']) = [15]"
proof
  show "req_timeout ` set (main_requests envs max_workers timeout urls_to_scan) \<subseteq> {15}"
    by (auto simp: main_requests_def submit_all_def dest: issued_timeout)
  show "map req_timeout (main_requests
      (\<lambda>i. world (Inr (page 200 ''OK'' ''<p>hello</p>'')) (Inr (page 200 ''OK'' ''<p>hello</p>''))
              \<lparr>get_text = ''hello'', find_all_a_href = []\<rparr>) 3 30 [''example.com'']) = [15]"
    by code_simp
qed

lemma loop_results:
  "\<forall>i\<in>set order. i < length fs \<Longrightarrow> \<forall>f\<in>set fs. \<exists>r. outcome f = Inr r \<Longrightarrow>
   \<exists>rs. as_completed_loop fs order (c, acc) = Inr (c + length order, acc @ rs) \<and>
        map Inr rs = map (\<lambda>i. outcome (fs ! i)) order"
proof (induction order arbitrary: c acc)
  case Nil
  then show ?case by simp
next
  case (Cons i order)
  from Cons.prems obtain r where r: "outcome (fs ! i) = Inr r"
    by (metis list.set_intros(1) nth_mem)
  from Cons.IH [of "c + 1" "acc @ [r]"] Cons.prems
  obtain rs where rs: "as_completed_loop fs order (c + 1, acc @ [r]) =
      Inr (c + 1 + length order, (acc @ [r]) @ rs)"
    "map Inr rs = map (\<lambda>i. outcome (fs ! i)) order"
    by auto
  have "as_completed_loop fs (i # order) (c, acc) = Inr (c + length (i # order), acc @ (r # rs))"
    using r rs(1) by simp
  moreover have "map Inr (r # rs) = map (\<lambda>i. outcome (fs ! i)) (i # order)"
    using r rs(2) by simp
  ultimately show ?case by blast
qed

lemma submit_all_nth:
  "i < length urls \<Longrightarrow> submit_all envs urls ! i = check_gtm (envs i) (urls ! i)"
  by (simp add: submit_all_def nth_enumerate_eq)

lemma submit_all_length: "length (submit_all envs urls) = length urls"
  by (simp add: submit_all_def)

lemma check_gtm_returns: "\<exists>r. outcome (check_gtm env u0) = Inr r"
  by (simp add: check_gtm_cases split: sum.splits exn.splits)

text \<open>
  C3. Whatever the urls (duplicates and failing ones included) and in whatever order the
  tasks complete, the batch ends without raising, its counter equals the number of urls,
  and its result list holds one result per url: the results of the tasks, in the order of
  completion.
\<close>

theorem batch_one_result_per_url:
  assumes "mset order = mset [0..<length urls_to_scan]"
  shows "\<exists>results. main_scan envs max_workers timeout urls_to_scan order =
            Inr (length urls_to_scan, results) \<and>
          length results = length urls_to_scan \<and>
          map Inr results = map (\<lambda>i. outcome (check_gtm (envs i) (urls_to_scan ! i))) order"
proof -
  have len: "length order = length urls_to_scan"
    using assms by (metis length_upt minus_nat.diff_0 size_mset)
  have mem: "\<forall>i\<in>set order. i < length urls_to_scan"
    using assms by (metis atLeastLessThan_iff set_mset_mset set_upt)
  then have "\<forall>i\<in>set order. i < length (submit_all envs urls_to_scan)"
    by (simp add: submit_all_length)
  moreover have "\<forall>f\<in>set (submit_all envs urls_to_scan). \<exists>r. outcome f = Inr r"
    by (auto simp: submit_all_def check_gtm_returns)
  ultimately obtain rs where rs:
    "as_completed_loop (submit_all envs urls_to_scan) order (0, []) = Inr (0 + length order, [] @ rs)"
    "map Inr rs = map (\<lambda>i. outcome (submit_all envs urls_to_scan ! i)) order"
    using loop_results by blast
  have "map Inr rs = map (\<lambda>i. outcome (check_gtm (envs i) (urls_to_scan ! i))) order"
    using rs(2) mem by (simp add: submit_all_nth)
  moreover have "length rs = length urls_to_scan"
    using rs(2) len by (metis length_map)
  ultimately show ?thesis using rs(1) len by (simp add: main_scan_def)
qed

theorem batch_one_result_per_url_witness:
  "\<exists>results.
     main_scan (\<lambda>i. if i = 2
                    then world (Inl (OtherException ''timed out'')) (Inl (OtherException ''timed out''))
                           \<lparr>get_text = [], find_all_a_href = []\<rparr>
                    else world (Inr (page 200 ''OK'' ''<p>hello</p>'')) (Inr (page 200 ''OK'' ''<p>hello</p>''))
                           \<lparr>get_text = ''hello'', find_all_a_href = []\<rparr>)
       2 15 [''a.example'', ''a.example'', ''down.example''] [2, 0, 1] = Inr (3, results) \<and>
     length results = 3"
proof -
  let ?urls = "[''a.example'', ''a.example'', ''down.example'']"
  let ?envs = "\<lambda>i::nat. if i = 2
                    then world (Inl (OtherException ''timed out'')) (Inl (OtherException ''timed out''))
                           \<lparr>get_text = [], find_all_a_href = []\<rparr>
                    else world (Inr (page 200 ''OK'' ''<p>hello</p>'')) (Inr (page 200 ''OK'' ''<p>hello</p>''))
                           \<lparr>get_text = ''hello'', find_all_a_href = []\<rparr>"
  have "[0..<length ?urls] = [0, 1, 2]"
    by code_simp
  then have "mset [2, 0, 1] = mset [0..<length ?urls]"
    by simp
  from batch_one_result_per_url [OF this, of ?envs 2 15]
  obtain results where "main_scan ?envs 2 15 ?urls [2, 0, 1] = Inr (length ?urls, results)"
    and "length results = length ?urls"
    by blast
  moreover have "length ?urls = 3"
    by simp
  ultimately show ?thesis
    by metis
qed

lemma page_info_no_gtm:
  "html_parser env (resp_text resp) = Inr sp \<Longrightarrow> \<not> find_gtm (resp_text resp) \<Longrightarrow>
   page_info env u resp = Inr (False, \<lparr>emails = {}, phones = {}, contact_links = {}\<rparr>)"
  by (simp add: page_info_def)

lemma page_info_skips_extractor:
  "\<not> find_gtm (resp_text resp) \<Longrightarrow>
   page_info env u resp =
     (case html_parser env (resp_text resp) of
        Inl e \<Rightarrow> Inl e
      | Inr sp \<Rightarrow> Inr (False, \<lparr>emails = {}, phones = {}, contact_links = {}\<rparr>))"
  by (simp add: page_info_def split: sum.splits)

lemma try_body_no_gtm:
  assumes "requests_get env (get_request u True) = Inr resp"
    and "try_body env u = Inr r"
    and "\<not> find_gtm (resp_text resp)"
  shows "\<not> gtm_found r \<and> emails r = {} \<and> phones r = {} \<and> contact_links r = {} \<and>
         status r = ''No GTM found''"
proof (cases "html_parser env (resp_text resp)")
  case (Inl e)
  then have "page_info env u resp = Inl e"
    using assms(3) by (simp add: page_info_skips_extractor)
  then show ?thesis
    using assms(1,2) by (simp add: try_body_def split: sum.splits)
next
  case (Inr sp)
  then have "page_info env u resp = Inr (False, \<lparr>emails = {}, phones = {}, contact_links = {}\<rparr>)"
    using assms(3) by (rule page_info_no_gtm)
  then show ?thesis
    using assms(1,2) by (auto simp: try_body_def split: sum.splits)
qed

text \<open>
  C5. When the fetch succeeds, that is, the verified request is answered with a status that
  is not an error and the \<open>try\<close> block returns, and the content matches no GTM pattern,
  the contact extractor is not called: the result has no GTM, empty emails, phones and
  contact links, and the status \<open>No GTM found\<close>. The result is fixed by the response alone
  once the page parses, and \<open>page_info\<close> never reaches the extractor for such content.
\<close>

theorem no_gtm_no_extraction:
  "(requests_get env (get_request (add_scheme u0) True) = Inr resp \<and>
    raise_for_status resp = Inr () \<and>
    html_parser env (resp_text resp) = Inr sp \<and> \<not> find_gtm (resp_text resp) \<longrightarrow>
    outcome (check_gtm env u0) =
      Inr \<lparr>emails = {}, phones = {}, contact_links = {}, url = add_scheme u0,
           gtm_found = False, status = ''No GTM found'',
           http_status = Some (status_code resp)\<rparr>) \<and>
   (requests_get env (get_request (add_scheme u0) True) = Inr resp \<and>
    try_body env (add_scheme u0) = Inr r \<and> \<not> find_gtm (resp_text resp) \<longrightarrow>
    outcome (check_gtm env u0) = Inr r \<and> \<not> gtm_found r \<and> emails r = {} \<and>
    phones r = {} \<and> contact_links r = {} \<and> status r = ''No GTM found'') \<and>
   (\<not> find_gtm (resp_text resp) \<longrightarrow>
    page_info env u resp =
      (case html_parser env (resp_text resp) of
         Inl e \<Rightarrow> Inl e
       | Inr sp \<Rightarrow> Inr (False, \<lparr>emails = {}, phones = {}, contact_links = {}\<rparr>)))"
proof -
  have A: "requests_get env (get_request (add_scheme u0) True) = Inr resp \<and>
    raise_for_status resp = Inr () \<and>
    html_parser env (resp_text resp) = Inr sp \<and> \<not> find_gtm (resp_text resp) \<longrightarrow>
    outcome (check_gtm env u0) =
      Inr \<lparr>emails = {}, phones = {}, contact_links = {}, url = add_scheme u0,
           gtm_found = False, status = ''No GTM found'',
           http_status = Some (status_code resp)\<rparr>"
  proof
    assume a: "requests_get env (get_request (add_scheme u0) True) = Inr resp \<and>
      raise_for_status resp = Inr () \<and>
      html_parser env (resp_text resp) = Inr sp \<and> \<not> find_gtm (resp_text resp)"
    then have "page_info env (add_scheme u0) resp =
        Inr (False, \<lparr>emails = {}, phones = {}, contact_links = {}\<rparr>)"
      using page_info_no_gtm by blast
    then show "outcome (check_gtm env u0) =
        Inr \<lparr>emails = {}, phones = {}, contact_links = {}, url = add_scheme u0,
             gtm_found = False, status = ''No GTM found'',
             http_status = Some (status_code resp)\<rparr>"
      using a by (simp add: check_gtm_cases try_body_def)
  qed
  have B: "requests_get env (get_request (add_scheme u0) True) = Inr resp \<and>
    try_body env (add_scheme u0) = Inr r \<and> \<not> find_gtm (resp_text resp) \<longrightarrow>
    outcome (check_gtm env u0) = Inr r \<and> \<not> gtm_found r \<and> emails r = {} \<and>
    phones r = {} \<and> contact_links r = {} \<and> status r = ''No GTM found''"
  proof
    assume b: "requests_get env (get_request (add_scheme u0) True) = Inr resp \<and>
      try_body env (add_scheme u0) = Inr r \<and> \<not> find_gtm (resp_text resp)"
    then have "outcome (check_gtm env u0) = Inr r"
      by (simp add: check_gtm_cases)
    moreover have "\<not> gtm_found r \<and> emails r = {} \<and> phones r = {} \<and> contact_links r = {} \<and>
           status r = ''No GTM found''"
      using b try_body_no_gtm by blast
    ultimately show "outcome (check_gtm env u0) = Inr r \<and> \<not> gtm_found r \<and> emails r = {} \<and>
      phones r = {} \<and> contact_links r = {} \<and> status r = ''No GTM found''"
      by blast
  qed
  have C: "\<not> find_gtm (resp_text resp) \<longrightarrow>
    page_info env u resp =
      (case html_parser env (resp_text resp) of
         Inl e \<Rightarrow> Inl e
       | Inr sp \<Rightarrow> Inr (False, \<lparr>emails = {}, phones = {}, contact_links = {}\<rparr>))"
    using page_info_skips_extractor by blast
  show ?thesis
    by (intro conjI A B C)
qed

theorem no_gtm_no_extraction_witness:
  "extract_contact_info (\<lambda>_. None)
      \<lparr>get_text = ''write to info@example.com'', find_all_a_href = [''/contact'']\<rparr>
      ''https://example.com'' =
     Inr \<lparr>emails = {''info@example.com''}, phones = {},
          contact_links = {''https://example.com/contact''}\<rparr> \<and>
   outcome (check_gtm (world (Inr (page 200 ''OK'' ''<p>write to info@example.com</p>''))
                             (Inl (OtherException ''unused''))
                             \<lparr>get_text = ''write to info@example.com'',
                              find_all_a_href = [''/contact'']\<rparr>) ''example.com'') =
     Inr \<lparr>emails = {}, phones = {}, contact_links = {}, url = ''https://example.com'',
          gtm_found = False, status = ''No GTM found'', http_status = Some 200\<rparr> \<and>
   try_body (world (Inr (page 200 ''OK'' ''<p>write to info@example.com</p>''))
                   (Inl (OtherException ''unused''))
                   \<lparr>get_text = ''write to info@example.com'',
                    find_all_a_href = [''/contact'']\<rparr>) ''https://example.com'' =
     Inr \<lparr>emails = {}, phones = {}, contact_links = {}, url = ''https://example.com'',
          gtm_found = False, status = ''No GTM found'', http_status = Some 200\<rparr> \<and>
   page_info (world (Inr (page 200 ''OK'' ''<p>write to info@example.com</p>''))
                    (Inl (OtherException ''unused''))
                    \<lparr>get_text = ''write to info@example.com'',
                     find_all_a_href = [''/contact'']\<rparr>) ''https://example.com''
             (page 200 ''OK'' ''<p>write to info@example.com</p>'') =
     Inr (False, \<lparr>emails = {}, phones = {}, contact_links = {}\<rparr>)"
proof -
  let ?sp = "\<lparr>get_text = ''write to info@example.com'', find_all_a_href = [''/contact'']\<rparr>"
  let ?pg = "page 200 ''OK'' ''<p>write to info@example.com</p>''"
  let ?w = "world (Inr ?pg) (Inl (OtherException ''unused'')) ?sp"
  let ?r = "\<lparr>emails = {}, phones = {}, contact_links = {}, url = ''https://example.com'',
          gtm_found = False, status = ''No GTM found'', http_status = Some 200\<rparr>"
  have u: "add_scheme ''example.com'' = ''https://example.com''"
    by (simp add: add_scheme_def)
  have g: "\<not> find_gtm (resp_text ?pg)"
    by code_simp
  have rs: "raise_for_status ?pg = Inr ()"
    by (simp add: raise_for_status_def page_def)
  have c: "status_code ?pg = 200"
    by (simp add: page_def)
  have e: "extract_contact_info (\<lambda>_. None) ?sp ''https://example.com'' =
     Inr \<lparr>emails = {''info@example.com''}, phones = {},
          contact_links = {''https://example.com/contact''}\<rparr>"
    by code_simp
  have q: "requests_get ?w (get_request ''https://example.com'' True) = Inr ?pg"
    and h: "html_parser ?w (resp_text ?pg) = Inr ?sp"
    by (simp_all add: world_def get_request_def)
  have 1: "outcome (check_gtm ?w ''example.com'') = Inr ?r"
    using no_gtm_no_extraction [where env = ?w and ?u0.0 = "''example.com''" and resp = ?pg and sp = ?sp]
      q h g rs unfolding u c by blast
  have t: "try_body ?w ''https://example.com'' = Inr ?r"
    by code_simp
  have 2: "outcome (check_gtm ?w ''example.com'') = Inr ?r \<and> \<not> gtm_found ?r \<and> emails ?r = {} \<and>
    phones ?r = {} \<and> contact_links ?r = {} \<and> status ?r = ''No GTM found''"
    using no_gtm_no_extraction [where env = ?w and ?u0.0 = "''example.com''" and resp = ?pg and r = ?r]
      q t g unfolding u by blast
  have "page_info ?w ''https://example.com'' ?pg =
      (case html_parser ?w (resp_text ?pg) of
         Inl e \<Rightarrow> Inl e
       | Inr sp \<Rightarrow> Inr (False, \<lparr>emails = {}, phones = {}, contact_links = {}\<rparr>))"
    using no_gtm_no_extraction [where env = ?w and resp = ?pg and u = "''https://example.com''"] g
    by blast
  then have 3: "page_info ?w ''https://example.com'' ?pg =
      Inr (False, \<lparr>emails = {}, phones = {}, contact_links = {}\<rparr>)"
    unfolding h by simp
  from e 1 2 t 3 show ?thesis by blast
qed

text \<open>
  C8, as stated, fails: the answer to the verified request carries the status code 404,
  and the result has no \<open>http_status\<close>.
\<close>

theorem http_error_status_not_captured:
  "status_code (page 404 ''Not Found'' ''<h1>Not Found</h1>'') = 404 \<and>
   outcome (check_gtm (world (Inr (page 404 ''Not Found'' ''<h1>Not Found</h1>''))
                             (Inl (OtherException ''unused''))
                             \<lparr>get_text = ''Not Found'', find_all_a_href = []\<rparr>) ''example.com'') =
     Inr \<lparr>emails = {}, phones = {}, contact_links = {}, url = ''https://example.com'',
          gtm_found = False,
          status = ''Error: 404 Client Error: Not Found for url: https://example.com/'',
          http_status = None\<rparr>"
  by code_simp

text \<open>
  C8, amended. When the verified request is answered with a status from 400 to 599, the
  result records the failure in its status text, \<open>Error:\<close> followed by the message of the
  HTTP error, which starts with the status code; its \<open>http_status\<close> is \<open>None\<close>.
\<close>

theorem http_error_recorded_in_status:
  "requests_get env (get_request (add_scheme u0) True) = Inr resp \<and>
   400 \<le> status_code resp \<and> status_code resp < 600 \<longrightarrow>
   outcome (check_gtm env u0) =
     Inr \<lparr>emails = {}, phones = {}, contact_links = {}, url = add_scheme u0,
          gtm_found = False,
          status = ''Error: '' @ str_int (status_code resp) @
                   (if status_code resp < 500 then '' Client Error: '' else '' Server Error: '') @
                   reason resp @ '' for url: '' @ resp_url resp,
          http_status = None\<rparr>"
  by (simp add: check_gtm_cases try_body_def raise_for_status_def failed_def)

theorem http_error_recorded_in_status_witness:
  "outcome (check_gtm (world (Inr (page 503 ''Service Unavailable'' ''<h1>Down</h1>''))
                             (Inl (OtherException ''unused''))
                             \<lparr>get_text = ''Down'', find_all_a_href = []\<rparr>) ''example.com'') =
     Inr \<lparr>emails = {}, phones = {}, contact_links = {}, url = ''https://example.com'',
          gtm_found = False,
          status = ''Error: 503 Server Error: Service Unavailable for url: https://example.com/'',
          http_status = None\<rparr>"
proof -
  let ?pg = "page 503 ''Service Unavailable'' ''<h1>Down</h1>''"
  let ?w = "world (Inr ?pg) (Inl (OtherException ''unused''))
              \<lparr>get_text = ''Down'', find_all_a_href = []\<rparr>"
  have u: "add_scheme ''example.com'' = ''https://example.com''"
    by (simp add: add_scheme_def)
  have "requests_get ?w (get_request ''https://example.com'' True) = Inr ?pg"
    by (simp add: world_def get_request_def)
  moreover have "status_code ?pg = 503" "reason ?pg = ''Service Unavailable''"
    "resp_url ?pg = ''https://example.com/''"
    by (simp_all add: page_def)
  moreover have "str_int 503 = ''503''"
    by code_simp
  ultimately show ?thesis
    using http_error_recorded_in_status [of ?w "''example.com''" ?pg] unfolding u by simp
qed

text \<open>
  C9. The comment of \<open>check_gtm\<close> says the scheme is added if not present, and the test is
  for the two literal prefixes \<open>http://\<close> and \<open>https://\<close>. The urls
  \<open>HTTP://example.com\<close> and \<open>ftp://example.com\<close> carry a scheme and still get
  \<open>https://\<close> in front: the request goes to \<open>https://HTTP://example.com\<close>, whose
  network location is \<open>HTTP:\<close>, and that url is the one in the result.
\<close>

theorem other_scheme_gets_prefixed:
  "has_url_scheme ''HTTP://example.com'' \<and>
   add_scheme ''HTTP://example.com'' = ''https://HTTP://example.com'' \<and>
   has_url_scheme ''ftp://example.com'' \<and>
   add_scheme ''ftp://example.com'' = ''https://ftp://example.com'' \<and>
   map req_url (issued (check_gtm
      (world (Inl (OtherException ''no such host'')) (Inl (OtherException ''no such host''))
             \<lparr>get_text = [], find_all_a_href = []\<rparr>) ''HTTP://example.com'')) =
     [''https://HTTP://example.com''] \<and>
   urlparse_netloc (\<lambda>_. None) ''https://HTTP://example.com'' = Inr ''HTTP:'' \<and>
   outcome (check_gtm
      (world (Inl (OtherException ''no such host'')) (Inl (OtherException ''no such host''))
             \<lparr>get_text = [], find_all_a_href = []\<rparr>) ''HTTP://example.com'') =
     Inr \<lparr>emails = {}, phones = {}, contact_links = {}, url = ''https://HTTP://example.com'',
          gtm_found = False, status = ''Error: no such host'', http_status = None\<rparr>"
  by code_simp

section \<open>Contact links: properties\<close>

lemma link_loop_rewrites:
  "urlparse_netloc ip_err u = Inr n \<Longrightarrow>
   link_loop ip_err u hs acc =
     Inr (acc @ map (\<lambda>h. if startswith h ''/'' then ''https://'' @ n @ h else h)
                  (filter (\<lambda>h. contains (lower h) ''contact'' \<or> contains (lower h) ''about'') hs))"
  by (induction hs arbitrary: acc) simp_all

lemma link_loop_keeps:
  "link_loop ip_err u hs acc = Inr ls \<Longrightarrow>
   set acc \<subseteq> set ls \<and>
   (\<forall>h\<in>set hs. (contains (lower h) ''contact'' \<or> contains (lower h) ''about'') \<and>
        \<not> startswith h ''/'' \<longrightarrow> h \<in> set ls)"
proof (induction hs arbitrary: acc)
  case Nil
  then show ?case by simp
next
  case (Cons a hs)
  show ?case
  proof (cases "contains (lower a) ''contact'' \<or> contains (lower a) ''about''")
    case False
    then have "link_loop ip_err u hs acc = Inr ls" using Cons.prems by simp
    from Cons.IH [OF this] False show ?thesis by auto
  next
    case True
    show ?thesis
    proof (cases "startswith a ''/''")
      case False
      then have "link_loop ip_err u hs (acc @ [a]) = Inr ls" using Cons.prems True by simp
      from Cons.IH [OF this] show ?thesis by auto
    next
      case slash: True
      then obtain n where n: "urlparse_netloc ip_err u = Inr n"
        and "link_loop ip_err u hs (acc @ [''https://'' @ n @ a]) = Inr ls"
        using Cons.prems True by (auto split: sum.splits)
      from Cons.IH [OF this(2)] slash show ?thesis by auto
    qed
  qed
qed

lemma netloc_of_web_url:
  assumes sch: "sch = ''http'' \<or> sch = ''https''"
    and h: "list_all (\<lambda>c. c \<notin> set ''/?#[]'' \<and> ord c \<noteq> 9 \<and> ord c \<noteq> 10 \<and> ord c \<noteq> 13) h"
    and rest: "rest = [] \<or> hd rest \<in> set ''/?#''"
  shows "urlparse_netloc ip_err (sch @ ''://'' @ h @ rest) = Inr h"
proof -
  let ?keep = "\<lambda>c. ord c \<noteq> 9 \<and> ord c \<noteq> 10 \<and> ord c \<noteq> 13"
  let ?nd = "\<lambda>c. c \<noteq> CHR ''/'' \<and> c \<noteq> CHR ''?'' \<and> c \<noteq> CHR ''#''"
  let ?rest = "filter ?keep rest"
  have hk: "filter ?keep h = h"
    using h by (induction h) auto
  have hn: "takeWhile ?nd (h @ ?rest) = h"
  proof -
    have "\<forall>c\<in>set h. ?nd c" using h by (auto simp: list_all_iff)
    moreover have "?rest = [] \<or> \<not> ?nd (hd ?rest)"
      using rest by (cases rest) (auto simp: ord_def)
    ultimately show ?thesis
      by (cases ?rest) (simp_all add: takeWhile_append2)
  qed
  have hb: "CHR ''['' \<notin> set h" "CHR '']'' \<notin> set h"
    using h by (auto simp: list_all_iff)
  from sch show ?thesis
  proof
    assume "sch = ''http''"
    then show ?thesis
      using hk hn hb
      by (simp add: urlparse_netloc_def after_scheme_def Let_def ord_def scheme_char_def
          ascii_alpha_def in_range_def)
  next
    assume "sch = ''https''"
    then show ?thesis
      using hk hn hb
      by (simp add: urlparse_netloc_def after_scheme_def Let_def ord_def scheme_char_def
          ascii_alpha_def in_range_def)
  qed
qed

lemma extract_from_links:
  "link_loop ip_err u (find_all_a_href sp) [] = Inr ls \<Longrightarrow>
   \<exists>info. extract_contact_info ip_err sp u = Inr info \<and> contact_links info = set ls"
  by (simp add: extract_contact_info_def Let_def)

lemma extract_to_links:
  "extract_contact_info ip_err sp u = Inr info \<Longrightarrow>
   \<exists>ls. link_loop ip_err u (find_all_a_href sp) [] = Inr ls \<and> contact_links info = set ls"
  by (auto simp: extract_contact_info_def Let_def split: sum.splits)

lemma findall_empty_text:
  "findall email_pattern [] = []" "findall phone_pattern [] = []"
  by code_simp+

text \<open>
  C6, as stated, fails for a source url with the scheme \<open>http\<close>: the link \<open>/contact-us\<close>
  found on \<open>http://example.com/page\<close> becomes \<open>https://example.com/contact-us\<close>.
\<close>

theorem http_source_gives_https_link:
  "extract_contact_info (\<lambda>_. None) \<lparr>get_text = [], find_all_a_href = [''/contact-us'']\<rparr>
     ''http://example.com/page'' =
   Inr \<lparr>emails = {}, phones = {}, contact_links = {''https://example.com/contact-us''}\<rparr>"
  by code_simp

text \<open>
  C6, amended. Every anchor \<open>href\<close> that contains \<open>contact\<close> or \<open>about\<close> (in any
  case) and begins with \<open>/\<close> is rewritten to \<open>https://\<close>, the network location of the
  source url and the \<open>href\<close>, whatever the scheme of the source, and the rewritten link is
  among the contact links. For a source \<open>http://host...\<close> or \<open>https://host...\<close> the network
  location is \<open>host\<close>, the part up to the first \<open>/\<close>, \<open>?\<close> or \<open>#\<close>. For the source
  \<open>https://example.com/page\<close> the link \<open>/contact-us\<close> gives
  \<open>https://example.com/contact-us\<close>.
\<close>

theorem relative_links_rewritten:
  "(h \<in> set (find_all_a_href sp) \<and>
    (contains (lower h) ''contact'' \<or> contains (lower h) ''about'') \<and> startswith h ''/'' \<and>
    urlparse_netloc ip_err u = Inr n \<longrightarrow>
    (\<exists>info. extract_contact_info ip_err sp u = Inr info \<and>
            ''https://'' @ n @ h \<in> contact_links info)) \<and>
   ((sch = ''http'' \<or> sch = ''https'') \<and>
    list_all (\<lambda>c. c \<notin> set ''/?#[]'' \<and> ord c \<noteq> 9 \<and> ord c \<noteq> 10 \<and> ord c \<noteq> 13) host \<and>
    (rest = [] \<or> hd rest \<in> set ''/?#'') \<longrightarrow>
    urlparse_netloc ip_err (sch @ ''://'' @ host @ rest) = Inr host) \<and>
   extract_contact_info ip_err \<lparr>get_text = [], find_all_a_href = [''/contact-us'']\<rparr>
     ''https://example.com/page'' =
   Inr \<lparr>emails = {}, phones = {}, contact_links = {''https://example.com/contact-us''}\<rparr>"
proof (intro conjI impI)
  let ?f = "\<lambda>h. if startswith h ''/'' then ''https://'' @ n @ h else h"
  let ?P = "\<lambda>h. contains (lower h) ''contact'' \<or> contains (lower h) ''about''"
  assume a: "h \<in> set (find_all_a_href sp) \<and>
    (contains (lower h) ''contact'' \<or> contains (lower h) ''about'') \<and> startswith h ''/'' \<and>
    urlparse_netloc ip_err u = Inr n"
  then have n: "urlparse_netloc ip_err u = Inr n" by blast
  have "link_loop ip_err u (find_all_a_href sp) [] = Inr ([] @ map ?f (filter ?P (find_all_a_href sp)))"
    by (rule link_loop_rewrites [OF n])
  from extract_from_links [OF this] obtain info where
    i: "extract_contact_info ip_err sp u = Inr info"
      "contact_links info = set ([] @ map ?f (filter ?P (find_all_a_href sp)))"
    by blast
  have "h \<in> set (filter ?P (find_all_a_href sp))" using a by simp
  then have "?f h \<in> set ([] @ map ?f (filter ?P (find_all_a_href sp)))"
    by (simp only: append_Nil set_map image_eqI)
  moreover have "?f h = ''https://'' @ n @ h" using a by simp
  ultimately have "''https://'' @ n @ h \<in> contact_links info"
    unfolding i(2) by (simp only:)
  with i(1) show "\<exists>info. extract_contact_info ip_err sp u = Inr info \<and>
            ''https://'' @ n @ h \<in> contact_links info"
    by blast
next
  assume "(sch = ''http'' \<or> sch = ''https'') \<and>
    list_all (\<lambda>c. c \<notin> set ''/?#[]'' \<and> ord c \<noteq> 9 \<and> ord c \<noteq> 10 \<and> ord c \<noteq> 13) host \<and>
    (rest = [] \<or> hd rest \<in> set ''/?#'')"
  then show "urlparse_netloc ip_err (sch @ ''://'' @ host @ rest) = Inr host"
    using netloc_of_web_url by blast
next
  have "list_all (\<lambda>c. c \<notin> set ''/?#[]'' \<and> ord c \<noteq> 9 \<and> ord c \<noteq> 10 \<and> ord c \<noteq> 13) ''example.com''"
    by (simp add: ord_def)
  then have "urlparse_netloc ip_err (''https'' @ ''://'' @ ''example.com'' @ ''/page'') = Inr ''example.com''"
    by (intro netloc_of_web_url) simp_all
  then have n: "urlparse_netloc ip_err ''https://example.com/page'' = Inr ''example.com''"
    by simp
  have c: "contains (lower ''/contact-us'') ''contact''"
    by code_simp
  have ll: "link_loop ip_err ''https://example.com/page'' [''/contact-us''] [] =
      Inr [''https://example.com/contact-us'']"
    using c by (simp add: n)
  show "extract_contact_info ip_err \<lparr>get_text = [], find_all_a_href = [''/contact-us'']\<rparr>
     ''https://example.com/page'' =
   Inr \<lparr>emails = {}, phones = {}, contact_links = {''https://example.com/contact-us''}\<rparr>"
    unfolding extract_contact_info_def Let_def soup.simps findall_empty_text ll by simp
qed

theorem relative_links_rewritten_witness:
  "extract_contact_info (\<lambda>_. None) \<lparr>get_text = [], find_all_a_href = [''/About'', ''/news'']\<rparr>
     ''http://example.com:8080/index.html'' =
   Inr \<lparr>emails = {}, phones = {}, contact_links = {''https://example.com:8080/About''}\<rparr> \<and>
   urlparse_netloc (\<lambda>_. None) ''http://example.com:8080/index.html'' = Inr ''example.com:8080'' \<and>
   ''https://example.com:8080/About'' \<in> {''https://example.com:8080/About''}"
proof -
  let ?sp = "\<lparr>get_text = [], find_all_a_href = [''/About'', ''/news'']\<rparr>"
  let ?u = "''http://example.com:8080/index.html''"
  have e: "extract_contact_info (\<lambda>_. None) ?sp ?u =
     Inr \<lparr>emails = {}, phones = {}, contact_links = {''https://example.com:8080/About''}\<rparr>"
    by code_simp
  have "list_all (\<lambda>c. c \<notin> set ''/?#[]'' \<and> ord c \<noteq> 9 \<and> ord c \<noteq> 10 \<and> ord c \<noteq> 13) ''example.com:8080''"
    by (simp add: ord_def)
  then have "urlparse_netloc (\<lambda>_. None) (''http'' @ ''://'' @ ''example.com:8080'' @ ''/index.html'') =
      Inr ''example.com:8080''"
    using relative_links_rewritten [of _ _ _ _ _ "''http''" "''example.com:8080''" "''/index.html''"]
    by simp
  then have n: "urlparse_netloc (\<lambda>_. None) ?u = Inr ''example.com:8080''"
    by simp
  have "''/About'' \<in> set (find_all_a_href ?sp)"
    by simp
  moreover have "contains (lower ''/About'') ''about''"
    by code_simp
  moreover have "startswith ''/About'' ''/''"
    by simp
  ultimately have "\<exists>info. extract_contact_info (\<lambda>_. None) ?sp ?u = Inr info \<and>
            ''https://'' @ ''example.com:8080'' @ ''/About'' \<in> contact_links info"
    using n relative_links_rewritten [of "''/About''" ?sp "(\<lambda>_. None)" ?u "''example.com:8080''"]
    by blast
  then have "''https://example.com:8080/About'' \<in> {''https://example.com:8080/About''}"
    unfolding e by simp
  with e n show ?thesis by blast
qed

text \<open>
  C10. An anchor \<open>href\<close> that contains \<open>contact\<close> or \<open>about\<close> and does not begin with
  \<open>/\<close> is among the contact links exactly as it is written in the page, so the contact
  links may hold strings that are not absolute urls. The extraction returns whenever the
  source url has a network location.
\<close>

theorem other_links_kept_as_written:
  "(h \<in> set (find_all_a_href sp) \<and>
    (contains (lower h) ''contact'' \<or> contains (lower h) ''about'') \<and> \<not> startswith h ''/'' \<and>
    extract_contact_info ip_err sp u = Inr info \<longrightarrow> h \<in> contact_links info) \<and>
   (urlparse_netloc ip_err u = Inr n \<longrightarrow> (\<exists>info. extract_contact_info ip_err sp u = Inr info))"
proof (intro conjI impI)
  assume a: "h \<in> set (find_all_a_href sp) \<and>
    (contains (lower h) ''contact'' \<or> contains (lower h) ''about'') \<and> \<not> startswith h ''/'' \<and>
    extract_contact_info ip_err sp u = Inr info"
  then obtain ls where ls: "link_loop ip_err u (find_all_a_href sp) [] = Inr ls"
    and info: "contact_links info = set ls"
    using extract_to_links by blast
  from link_loop_keeps [OF ls] a have "h \<in> set ls" by blast
  then show "h \<in> contact_links info" using info by simp
next
  assume "urlparse_netloc ip_err u = Inr n"
  then have "link_loop ip_err u (find_all_a_href sp) [] =
     Inr ([] @ map (\<lambda>h. if startswith h ''/'' then ''https://'' @ n @ h else h)
                  (filter (\<lambda>h. contains (lower h) ''contact'' \<or> contains (lower h) ''about'')
                     (find_all_a_href sp)))"
    by (rule link_loop_rewrites)
  from extract_from_links [OF this] show "\<exists>info. extract_contact_info ip_err sp u = Inr info"
    by blast
qed

theorem other_links_kept_as_written_witness:
  "extract_contact_info (\<lambda>_. None)
      \<lparr>get_text = [], find_all_a_href = [''contact.html'', ''index.html'', ''about/team'']\<rparr>
      ''https://example.com'' =
     Inr \<lparr>emails = {}, phones = {}, contact_links = {''contact.html'', ''about/team''}\<rparr> \<and>
   ''contact.html'' \<in> {''contact.html'', ''about/team''} \<and>
   ''about/team'' \<in> {''contact.html'', ''about/team''} \<and>
   urlparse_netloc (\<lambda>_. None) ''https://example.com'' = Inr ''example.com'' \<and>
   (\<exists>info. extract_contact_info (\<lambda>_. None)
      \<lparr>get_text = [], find_all_a_href = [''contact.html'', ''index.html'', ''about/team'']\<rparr>
      ''https://example.com'' = Inr info)"
proof -
  let ?sp = "\<lparr>get_text = [], find_all_a_href = [''contact.html'', ''index.html'', ''about/team'']\<rparr>"
  let ?info = "\<lparr>emails = {}, phones = {}, contact_links = {''contact.html'', ''about/team''}\<rparr>"
  have e: "extract_contact_info (\<lambda>_. None) ?sp ''https://example.com'' = Inr ?info"
    by code_simp
  have c1: "contains (lower ''contact.html'') ''contact''" and c2: "contains (lower ''about/team'') ''about''"
    by code_simp+
  have n: "urlparse_netloc (\<lambda>_. None) ''https://example.com'' = Inr ''example.com''"
    by code_simp
  have "''contact.html'' \<in> contact_links ?info"
    using other_links_kept_as_written [of "''contact.html''" ?sp "\<lambda>_. None" "''https://example.com''" ?info] e c1
    by simp
  moreover have "''about/team'' \<in> contact_links ?info"
    using other_links_kept_as_written [of "''about/team''" ?sp "\<lambda>_. None" "''https://example.com''" ?info] e c2
    by simp
  moreover have "\<exists>info. extract_contact_info (\<lambda>_. None) ?sp ''https://example.com'' = Inr info"
    using other_links_kept_as_written [of _ ?sp "\<lambda>_. None" "''https://example.com''" _ "''example.com''"] n
    by blast
  ultimately show ?thesis using e n by simp
qed

section \<open>A page with GTM, end to end\<close>

text \<open>
  A page that loads GTM, gives an address and a phone number in its text and links to
  \<open>/about\<close>: the scan finds GTM and extracts the three contacts.
\<close>

lemma scan_of_gtm_page:
  "outcome (check_gtm
      (world (Inr (page 200 ''OK''
                ''<script src='https://www.googletagmanager.com/gtm.js?id=GTM-ABC123'></script> Email us: info@example.com or call (415) 555-0100''))
             (Inl (OtherException ''unused''))
             \<lparr>get_text = '' Email us: info@example.com or call (415) 555-0100'',
              find_all_a_href = [''/about'']\<rparr>)
      ''https://example.com'') =
   Inr \<lparr>emails = {''info@example.com''}, phones = {''(415) 555-0100''},
        contact_links = {''https://example.com/about''}, url = ''https://example.com'',
        gtm_found = True, status = ''Success'', http_status = Some 200\<rparr>"
  by code_simp

end
